theory Spec2Isabelle
  imports Main
begin

section \<open>JavaScript \<open>Set\<close> objects\<close>

text \<open>
  A JavaScript \<open>Set\<close> keeps its elements in insertion order and holds no element
  twice. It is modelled by the list of its elements in insertion order. The elements the
  program stores are strings, which \<open>Set\<close> compares by value.
\<close>

type_synonym 'a js_set = "'a list"

definition Set_add :: "'a \<Rightarrow> 'a js_set \<Rightarrow> 'a js_set" where
  \<comment> \<open>\<open>s.add(x)\<close>: appends \<open>x\<close> unless it is already an element.\<close>
  "Set_add x s = (if x \<in> set s then s else s @ [x])"

definition Set_delete :: "'a \<Rightarrow> 'a js_set \<Rightarrow> 'a js_set" where
  \<comment> \<open>\<open>s.delete(x)\<close>: removes \<open>x\<close> if it is an element.\<close>
  "Set_delete x s = removeAll x s"

definition new_Set :: "'a list \<Rightarrow> 'a js_set" where
  \<comment> \<open>\<open>new Set(iterable)\<close>: adds the values of the iterable one by one.\<close>
  "new_Set xs = fold Set_add xs []"

subsection \<open>\<open>GRTC.setDifference\<close>\<close>

text \<open>
  \<^verbatim>\<open>
  setDifference(setA, setB) {
      let difference = new Set(setA);
      for (let elem of setB) {
          difference.delete(elem);
      }
      return difference;
  }
  \<close>
\<close>

definition setDifference :: "'a js_set \<Rightarrow> 'a js_set \<Rightarrow> 'a js_set" where
  "setDifference setA setB = fold Set_delete setB (new_Set setA)"

subsection \<open>\<open>setDifference\<close> on a store of objects\<close>

text \<open>
  To speak about what the call does to its arguments, the same function is written over
  an explicit store: a heap is the list of the \<open>Set\<close> objects allocated so far, an
  object reference is an index into it, and \<open>new Set\<close> allocates at the end. The
  \<open>for ... of\<close> loop reads the iterated object from the current heap at every step, so
  that a write to an aliased object would be seen.
\<close>

type_synonym 'a heap = "'a js_set list"

definition heap_new_Set :: "'a list \<Rightarrow> 'a heap \<Rightarrow> 'a heap \<times> nat" where
  "heap_new_Set xs h = (h @ [new_Set xs], length h)"

definition heap_delete :: "nat \<Rightarrow> 'a \<Rightarrow> 'a heap \<Rightarrow> 'a heap" where
  "heap_delete d x h = (if d < length h then h[d := Set_delete x (h ! d)] else h)"

function for_of_delete :: "nat \<Rightarrow> nat \<Rightarrow> nat \<Rightarrow> 'a heap \<Rightarrow> 'a heap" where
  "for_of_delete setB difference i h =
     (if setB < length h \<and> i < length (h ! setB)
      then for_of_delete setB difference (Suc i) (heap_delete difference (h ! setB ! i) h)
      else h)"
  by pat_completeness auto
termination
proof (relation "measure (\<lambda>(setB, difference, i, h). length (h ! setB) - i)", goal_cases)
  case 1
  show ?case by simp
next
  case (2 setB difference i h)
  have "length (heap_delete difference (h ! setB ! i) h ! setB) \<le> length (h ! setB)"
    by (cases "difference = setB")
      (simp_all add: heap_delete_def Set_delete_def length_removeAll_less_eq)
  with 2 show ?case by auto
qed

declare for_of_delete.simps [simp del]

definition setDifference_heap :: "nat \<Rightarrow> nat \<Rightarrow> 'a heap \<Rightarrow> ('a heap \<times> nat) option" where
  \<comment> \<open>\<open>None\<close> when an argument is not a reference to an allocated object, which no
      JavaScript caller can pass.\<close>
  "setDifference_heap setA setB h =
     (if setA < length h \<and> setB < length h
      then (case heap_new_Set (h ! setA) h of
              (h1, difference) \<Rightarrow> Some (for_of_delete setB difference 0 h1, difference))
      else None)"

section \<open>The session object and its collaborators\<close>

text \<open>
  The program is event driven: the constructor runs \<open>init\<close>, and everything after that
  happens in callbacks (interval timers, settled promises, events of the peer). Each
  callback runs to completion before the next one starts. The model is a step function
  from an event of the environment and the state to the new state, the effects on the
  collaborators in the order they happen, and the exception that left the callback, if any.

  The collaborators are outside the program: the store (reached with \<open>$.get\<close>), the
  peer (\<open>simple-peer\<close>), the key generation and the timers of the runtime. A call into
  one of them is recorded as an effect; what they do later comes back as an event. The
  calls to the store, to the key generation and to the timers return. The two methods of
  the peer that the program calls can throw: \<open>signal\<close> throws once the peer is
  destroyed, and \<open>send\<close> throws unless the peer is connected; then nothing reaches the
  peer and no effect is recorded. The store answers a \<open>get\<close> request with an array of
  strings. Listeners that the application attaches to the session from outside see the
  \<open>Emit\<close> effects.
\<close>

text \<open>
  The exceptions: \<open>TypeError\<close> and \<open>SyntaxError\<close> of the language, and \<open>PeerError\<close>
  for an exception thrown by a method of the peer.
\<close>

datatype error = TypeError | SyntaxError | PeerError

datatype json =
    JNull | JBool bool | JNum int | JStr string
  | JArr "json list" | JObj "(string \<times> json) list"

text \<open>The argument an event is emitted with.\<close>

datatype payload = NoArg | StrArg string | JsonArg json

text \<open>
  A signal object of the peer is used by the program only through
  \<open>JSON.stringify\<close>, so it is represented by its JSON text; \<open>None\<close> is \<open>null\<close>.
\<close>

definition JSON_stringify :: "string option \<Rightarrow> string" where
  "JSON_stringify v = (case v of None \<Rightarrow> ''null'' | Some text \<Rightarrow> text)"

text \<open>
  Modelled from the spec: the \<open>crypto\<close> module (\<open>require('./crypto')\<close>) is not among
  the sources; \<open>generateKeys\<close> settles with a key pair \<open>{publicKey, privateKey}\<close>.
\<close>

record keypair =
  publicKey :: string
  privateKey :: string

text \<open>What the session does to its collaborators.\<close>

datatype action =
    StoreGet string string
    \<comment> \<open>\<open>$.get(url + '/get/' + grtcID, ...)\<close>: the url and the room id\<close>
  | StoreSet string string string bool
    \<comment> \<open>\<open>$.get(url + '/set/' + grtcID + '/' + btoa(JSON.stringify(signalID)), ...)\<close>:
        the url, the room id, the serialized signal (before \<open>btoa\<close>) and whether
        \<open>?force=true\<close> is appended\<close>
  | NewPeer bool bool
    \<comment> \<open>\<open>new Peer({initiator: ..., trickle: ...})\<close>\<close>
  | PeerSignal payload
    \<comment> \<open>\<open>self.peer.signal(signal)\<close>\<close>
  | PeerSend json
    \<comment> \<open>\<open>self.peer.send(JSON.stringify(payload))\<close>: the payload before serialization\<close>
  | GenerateKeys
    \<comment> \<open>\<open>crypto.generateKeys()\<close>\<close>
  | SetInterval nat nat
    \<comment> \<open>\<open>setInterval(callback, delay)\<close>: the handle returned and the delay\<close>
  | Emit string payload
    \<comment> \<open>\<open>self.emit(name, argument)\<close>, as the listeners attached by the application see it\<close>
  | Uncaught error
    \<comment> \<open>an exception that left a callback\<close>

subsection \<open>class \<open>Signal\<close>\<close>

record Signal =
  signal_url :: string
  signal_grtcID :: string
  signalID :: "string option"

definition clearSignal :: "Signal \<Rightarrow> action" where
  "clearSignal sig =
     StoreSet (signal_url sig) (signal_grtcID sig) (JSON_stringify (signalID sig)) True"

definition getSignal :: "Signal \<Rightarrow> action" where
  "getSignal sig = StoreGet (signal_url sig) (signal_grtcID sig)"

definition updateSignal :: "Signal \<Rightarrow> action" where
  "updateSignal sig =
     StoreSet (signal_url sig) (signal_grtcID sig) (JSON_stringify (signalID sig)) False"

subsection \<open>class \<open>GRTC\<close>\<close>

text \<open>
  The peer: the options it was created with and the two flags of its state that decide
  whether its methods throw. It becomes \<open>connected\<close> when it emits \<open>connect\<close> and
  \<open>destroyed\<close> when it emits \<open>close\<close>.
\<close>

record Peer =
  initiator :: bool
  trickle :: bool
  connected :: bool
  destroyed :: bool

text \<open>
  The listeners the class attaches to itself with \<open>self.on\<close>, each under the name of the
  event it was attached to:
  \<^item> \<open>PeerFound_signal\<close>: \<open>self.on('peerFound', (signal) => { self.peer.signal(signal); })\<close>
    in \<open>peerHandler\<close>;
  \<^item> \<open>PeerFound_generateKeys\<close>: \<open>self.on('peerFound', () => { crypto.generateKeys()... })\<close>
    in \<open>securityHandler\<close>;
  \<^item> \<open>PublicKey_empty\<close>: \<open>self.on('publicKey', (publicKey) => { })\<close> in \<open>securityHandler\<close>.
\<close>

datatype listener = PeerFound_signal | PeerFound_generateKeys | PublicKey_empty

fun listens_to :: "listener \<Rightarrow> string" where
  "listens_to PeerFound_signal = ''peerFound''"
| "listens_to PeerFound_generateKeys = ''peerFound''"
| "listens_to PublicKey_empty = ''publicKey''"

text \<open>
  The fields of the object, as the constructor sets them; \<open>listeners\<close> is the listener
  table of the \<open>EventEmitter\<close> it extends, in registration order. \<open>keys\<close> is \<open>None\<close>
  for the initial \<open>[]\<close>.
\<close>

record GRTC =
  peer :: "Peer option"
  peerSignal :: "string option"
  signalInstance :: "Signal option"
  joinee :: bool
  reload :: bool
  url :: string
  grtcID :: string
  otherPeers :: "string js_set"
  listenSignalTimer :: nat
  listenSignalCount :: nat
  keys :: "keypair option"
  listeners :: "listener list"

text \<open>
  The state of the event loop around the object: the interval timers that are active,
  the next timer handle, the number of \<open>getSignal\<close>, \<open>updateSignal\<close> and
  \<open>generateKeys\<close> promises that are not settled yet, and whether the promise of
  \<open>peerHandler\<close> has been resolved.
\<close>

record world = GRTC +
  timers :: "nat list"
  nextTimer :: nat
  pendingGet :: nat
  pendingUpdate :: nat
  pendingKeys :: nat
  offerResolved :: bool

type_synonym outcome = "world \<times> action list \<times> error option"

definition ok :: "world \<Rightarrow> outcome" where
  "ok w = (w, [], None)"

definition act :: "action \<Rightarrow> world \<Rightarrow> outcome" where
  "act a w = (w, [a], None)"

definition throw :: "error \<Rightarrow> world \<Rightarrow> outcome" where
  "throw e w = (w, [], Some e)"

definition andThen :: "outcome \<Rightarrow> (world \<Rightarrow> outcome) \<Rightarrow> outcome" where
  \<comment> \<open>sequencing: the second statement runs unless the first one threw\<close>
  "andThen r f =
     (case r of
        (w, as, Some e) \<Rightarrow> (w, as, Some e)
      | (w, as, None) \<Rightarrow> (case f w of (w', as', r') \<Rightarrow> (w', as @ as', r')))"

primrec forEach :: "'a list \<Rightarrow> ('a \<Rightarrow> world \<Rightarrow> outcome) \<Rightarrow> world \<Rightarrow> outcome" where
  "forEach [] body w = ok w"
| "forEach (x # xs) body w = andThen (body x w) (forEach xs body)"

subsubsection \<open>\<open>emit\<close>\<close>

definition peer_signal :: "payload \<Rightarrow> world \<Rightarrow> outcome" where
  \<comment> \<open>\<open>self.peer.signal(signal)\<close>: throws after the peer has been destroyed\<close>
  "peer_signal arg w =
     (case peer w of
        None \<Rightarrow> throw TypeError w
      | Some p \<Rightarrow> if destroyed p then throw PeerError w else act (PeerSignal arg) w)"

definition peer_send :: "json \<Rightarrow> world \<Rightarrow> outcome" where
  \<comment> \<open>\<open>self.peer.send(JSON.stringify(payload))\<close>: throws unless the peer is connected\<close>
  "peer_send v w =
     (case peer w of
        None \<Rightarrow> throw TypeError w
      | Some p \<Rightarrow>
          if connected p \<and> \<not> destroyed p then act (PeerSend v) w else throw PeerError w)"

fun run_listener :: "listener \<Rightarrow> payload \<Rightarrow> world \<Rightarrow> outcome" where
  "run_listener PeerFound_signal arg w = peer_signal arg w"
| "run_listener PeerFound_generateKeys arg w =
     act GenerateKeys (w\<lparr>pendingKeys := Suc (pendingKeys w)\<rparr>)"
| "run_listener PublicKey_empty arg w = ok w"

definition emit :: "string \<Rightarrow> payload \<Rightarrow> world \<Rightarrow> outcome" where
  \<comment> \<open>calls the listeners attached under the name, in registration order\<close>
  "emit name arg w =
     andThen (act (Emit name arg) w)
       (forEach (filter (\<lambda>l. listens_to l = name) (listeners w)) (\<lambda>l. run_listener l arg))"

subsubsection \<open>\<open>listenSignalRoutine\<close> and \<open>listenSignal\<close>\<close>

definition listenSignalRoutine :: "world \<Rightarrow> outcome" where
  \<comment> \<open>\<open>self.signalInstance.getSignal().then(...)\<close>: the request goes out and the
      callback waits for the response\<close>
  "listenSignalRoutine w =
     (case signalInstance w of
        None \<Rightarrow> throw TypeError w
      | Some sig \<Rightarrow> act (getSignal sig) (w\<lparr>pendingGet := Suc (pendingGet w)\<rparr>))"

definition peerFound_body :: "string \<Rightarrow> world \<Rightarrow> outcome" where
  \<comment> \<open>the body of the \<open>forEach\<close> in \<open>listenSignalRoutine\<close>\<close>
  "peerFound_body signal w =
     (if signal \<noteq> JSON_stringify (peerSignal w)
      then andThen (emit ''peerFound'' (StrArg signal) w)
             (\<lambda>w. ok (w\<lparr>otherPeers := Set_add signal (otherPeers w)\<rparr>))
      else ok w)"

definition listenSignalRoutine_then :: "string list \<Rightarrow> world \<Rightarrow> outcome" where
  \<comment> \<open>the callback \<open>(resp) => { ... }\<close> of \<open>getSignal().then\<close>\<close>
  "listenSignalRoutine_then resp w =
     forEach (setDifference (new_Set resp) (otherPeers w)) peerFound_body w"

definition setInterval :: "nat \<Rightarrow> world \<Rightarrow> nat \<times> world" where
  \<comment> \<open>returns a handle that no earlier call returned\<close>
  "setInterval delay w =
     (nextTimer w, w\<lparr>timers := timers w @ [nextTimer w], nextTimer := Suc (nextTimer w)\<rparr>)"

definition listenSignal :: "world \<Rightarrow> outcome" where
  "listenSignal w =
     andThen (listenSignalRoutine w)
       (\<lambda>w. case setInterval 5000 w of
               (handle, w') \<Rightarrow> act (SetInterval handle 5000) (w'\<lparr>listenSignalTimer := handle\<rparr>))"

definition listenSignal_tick :: "world \<Rightarrow> outcome" where
  \<comment> \<open>the callback of the interval timer\<close>
  "listenSignal_tick w =
     listenSignalRoutine (w\<lparr>listenSignalCount := Suc (listenSignalCount w)\<rparr>)"

subsubsection \<open>\<open>dataHandler\<close>\<close>

fun publicKey_in :: "json \<Rightarrow> error + bool" where
  \<comment> \<open>\<open>'publicKey' in parsedData\<close>: a \<open>TypeError\<close> unless the right operand is an object\<close>
  "publicKey_in (JObj props) = Inr (''publicKey'' \<in> fst ` set props)"
| "publicKey_in (JArr _) = Inr False"
| "publicKey_in _ = Inl TypeError"

fun get_publicKey :: "json \<Rightarrow> json" where
  \<comment> \<open>\<open>parsedData['publicKey']\<close>, where the property exists\<close>
  "get_publicKey (JObj props) = (case map_of props ''publicKey'' of Some v \<Rightarrow> v | None \<Rightarrow> JNull)"
| "get_publicKey _ = JNull"

definition dataHandler :: "(string \<Rightarrow> json option) \<Rightarrow> string \<Rightarrow> world \<Rightarrow> outcome" where
  \<comment> \<open>\<open>JSON_parse\<close> stands for \<open>JSON.parse\<close>, \<open>None\<close> where it throws a
      \<open>SyntaxError\<close>; \<open>data\<close> is \<open>data.toString()\<close>\<close>
  "dataHandler JSON_parse data w =
     (case JSON_parse data of
        None \<Rightarrow> throw SyntaxError w
      | Some parsedData \<Rightarrow>
          (case publicKey_in parsedData of
             Inl e \<Rightarrow> throw e w
           | Inr True \<Rightarrow> emit ''publicKey'' (JsonArg (get_publicKey parsedData)) w
           | Inr False \<Rightarrow> emit ''peerData'' (JsonArg parsedData) w))"

subsubsection \<open>\<open>peerHandler\<close>, \<open>securityHandler\<close> and \<open>init\<close>\<close>

definition peerHandler :: "world \<Rightarrow> outcome" where
  \<comment> \<open>creates the peer and attaches the listeners; the promise it returns is resolved
      by the first \<open>signal\<close> event of the peer. The listeners attached to the peer are
      the cases \<open>PeerOnSignal\<close>, \<open>PeerOnConnect\<close> and \<open>PeerOnData\<close> of \<open>step\<close>;
      \<open>self.send\<close> is for the application to call and runs in no callback.\<close>
  "peerHandler w =
     act (NewPeer (joinee w = True) False)
       (w\<lparr>peer := Some \<lparr>initiator = (joinee w = True), trickle = False,
                         connected = False, destroyed = False\<rparr>,
          listeners := listeners w @ [PeerFound_signal]\<rparr>)"

definition securityHandler :: "world \<Rightarrow> outcome" where
  "securityHandler w =
     ok (w\<lparr>listeners := listeners w @ [PeerFound_generateKeys, PublicKey_empty]\<rparr>)"

definition generateKeys_then :: "keypair \<Rightarrow> world \<Rightarrow> outcome" where
  \<comment> \<open>the callback \<open>(keys) => { ... }\<close> of \<open>crypto.generateKeys().then\<close>\<close>
  "generateKeys_then ks w =
     andThen (ok (w\<lparr>keys := Some ks\<rparr>))
       (peer_send (JObj [(''publicKey'', JStr (publicKey ks))]))"

definition new_Signal :: "string \<Rightarrow> string \<Rightarrow> string option \<Rightarrow> Signal" where
  "new_Signal u g s = \<lparr>signal_url = u, signal_grtcID = g, signalID = s\<rparr>"

definition updateSignal_then :: "world \<Rightarrow> outcome" where
  \<comment> \<open>the callback of \<open>self.signalInstance.updateSignal().then\<close>\<close>
  "updateSignal_then w = andThen (listenSignal w) securityHandler"

definition peerHandler_then :: "world \<Rightarrow> outcome" where
  \<comment> \<open>the callback of \<open>self.peerHandler().then\<close>\<close>
  "peerHandler_then w =
     andThen (ok (w\<lparr>signalInstance := Some (new_Signal (url w) (grtcID w) (peerSignal w))\<rparr>))
       (\<lambda>w. case signalInstance w of
               None \<Rightarrow> throw TypeError w
             | Some sig \<Rightarrow> act (updateSignal sig) (w\<lparr>pendingUpdate := Suc (pendingUpdate w)\<rparr>))"

definition init :: "world \<Rightarrow> outcome" where
  "init w =
     andThen
       (if joinee w = False
        then andThen
               (ok (w\<lparr>signalInstance := Some (new_Signal (url w) (grtcID w) (peerSignal w))\<rparr>))
               listenSignal
        else ok w)
       peerHandler"

definition constructor :: "string \<Rightarrow> string \<Rightarrow> bool \<Rightarrow> bool \<Rightarrow> outcome" where
  \<comment> \<open>\<open>new GRTC(grtcID, url, joinee, reload)\<close>, in a fresh event loop\<close>
  "constructor grtcID_arg url_arg joinee_arg reload_arg =
     init \<lparr>peer = None, peerSignal = None, signalInstance = None, joinee = joinee_arg,
           reload = reload_arg, url = url_arg, grtcID = grtcID_arg, otherPeers = [],
           listenSignalTimer = 0, listenSignalCount = 0, keys = None, listeners = [],
           timers = [], nextTimer = 1, pendingGet = 0, pendingUpdate = 0, pendingKeys = 0,
           offerResolved = False\<rparr>"

subsection \<open>The events of the environment\<close>

text \<open>
  \<^item> \<open>Tick h\<close>: the interval timer with handle \<open>h\<close> fires;
  \<^item> \<open>GetResolved resp\<close>, \<open>GetRejected\<close>: a \<open>getSignal\<close> promise settles;
  \<^item> \<open>UpdateResolved\<close>, \<open>UpdateRejected\<close>: the \<open>updateSignal\<close> promise settles;
  \<^item> \<open>KeysResolved ks\<close>, \<open>KeysRejected\<close>: a \<open>generateKeys\<close> promise settles;
  \<^item> \<open>PeerOnSignal s\<close>, \<open>PeerOnConnect\<close>, \<open>PeerOnData d\<close>: the peer emits \<open>signal\<close>,
    \<open>connect\<close> or \<open>data\<close>, the events \<open>peerHandler\<close> listens to; the peer is
    connected from its \<open>connect\<close> event on;
  \<^item> \<open>PeerOnOther name\<close>: the peer emits any other event (\<open>close\<close>, \<open>error\<close>, ...),
    to which nothing listens; the peer is destroyed, and no longer connected, from its
    \<open>close\<close> event on.

  An event that cannot happen in a state (a timer that is not active, a promise that is
  not pending, a peer that does not exist) leaves the state as it is. No promise of the
  program has a rejection handler.
\<close>

datatype event =
    Tick nat
  | GetResolved "string list" | GetRejected
  | UpdateResolved | UpdateRejected
  | KeysResolved keypair | KeysRejected
  | PeerOnSignal string | PeerOnConnect | PeerOnData string | PeerOnOther string

definition peer_on_signal :: "string \<Rightarrow> world \<Rightarrow> outcome" where
  \<comment> \<open>the two \<open>signal\<close> listeners of \<open>peerHandler\<close> in registration order, then the
      callback of the promise if this \<open>resolve()\<close> was the first\<close>
  "peer_on_signal s w =
     andThen (ok (w\<lparr>peerSignal := Some s\<rparr>))
       (\<lambda>w. andThen (emit ''peerSignal'' (StrArg s) w)
          (\<lambda>w. if offerResolved w then ok w
                else peerHandler_then (w\<lparr>offerResolved := True\<rparr>)))"

fun step :: "(string \<Rightarrow> json option) \<Rightarrow> event \<Rightarrow> world \<Rightarrow> outcome" where
  "step JSON_parse (Tick h) w =
     (if h \<in> set (timers w) then listenSignal_tick w else ok w)"
| "step JSON_parse (GetResolved resp) w =
     (if 0 < pendingGet w
      then listenSignalRoutine_then resp (w\<lparr>pendingGet := pendingGet w - 1\<rparr>)
      else ok w)"
| "step JSON_parse GetRejected w =
     (if 0 < pendingGet w then ok (w\<lparr>pendingGet := pendingGet w - 1\<rparr>) else ok w)"
| "step JSON_parse UpdateResolved w =
     (if 0 < pendingUpdate w
      then updateSignal_then (w\<lparr>pendingUpdate := pendingUpdate w - 1\<rparr>)
      else ok w)"
| "step JSON_parse UpdateRejected w =
     (if 0 < pendingUpdate w then ok (w\<lparr>pendingUpdate := pendingUpdate w - 1\<rparr>) else ok w)"
| "step JSON_parse (KeysResolved ks) w =
     (if 0 < pendingKeys w
      then generateKeys_then ks (w\<lparr>pendingKeys := pendingKeys w - 1\<rparr>)
      else ok w)"
| "step JSON_parse KeysRejected w =
     (if 0 < pendingKeys w then ok (w\<lparr>pendingKeys := pendingKeys w - 1\<rparr>) else ok w)"
| "step JSON_parse (PeerOnSignal s) w =
     (case peer w of None \<Rightarrow> ok w | Some _ \<Rightarrow> peer_on_signal s w)"
| "step JSON_parse PeerOnConnect w =
     (case peer w of
        None \<Rightarrow> ok w
      | Some p \<Rightarrow> emit ''peerConnected'' NoArg (w\<lparr>peer := Some (p\<lparr>connected := True\<rparr>)\<rparr>))"
| "step JSON_parse (PeerOnData d) w =
     (case peer w of None \<Rightarrow> ok w | Some _ \<Rightarrow> dataHandler JSON_parse d w)"
| "step JSON_parse (PeerOnOther name) w =
     (case peer w of
        None \<Rightarrow> ok w
      | Some p \<Rightarrow>
          if name = ''close''
          then ok (w\<lparr>peer := Some (p\<lparr>connected := False, destroyed := True\<rparr>)\<rparr>)
          else ok w)"

definition logged :: "outcome \<Rightarrow> action list" where
  \<comment> \<open>the effects of a callback, with the exception that left it at the end\<close>
  "logged r =
     (case r of (w, as, None) \<Rightarrow> as | (w, as, Some e) \<Rightarrow> as @ [Uncaught e])"

fun run :: "(string \<Rightarrow> json option) \<Rightarrow> event list \<Rightarrow> world \<Rightarrow> world \<times> action list" where
  \<comment> \<open>the event loop: an uncaught exception ends its callback, not the loop\<close>
  "run JSON_parse [] w = (w, [])"
| "run JSON_parse (ev # evs) w =
     (case run JSON_parse evs (fst (step JSON_parse ev w)) of
        (w', trace) \<Rightarrow> (w', logged (step JSON_parse ev w) @ trace))"

definition session ::
  "(string \<Rightarrow> json option) \<Rightarrow> string \<Rightarrow> string \<Rightarrow> bool \<Rightarrow> bool \<Rightarrow> event list
     \<Rightarrow> world \<times> action list" where
  \<comment> \<open>a whole session: the constructor, then the events\<close>
  "session JSON_parse grtcID_arg url_arg joinee_arg reload_arg evs =
     (case run JSON_parse evs (fst (constructor grtcID_arg url_arg joinee_arg reload_arg)) of
        (w, trace) \<Rightarrow>
          (w, logged (constructor grtcID_arg url_arg joinee_arg reload_arg) @ trace))"

text \<open>
  The arguments of the \<open>peerFound\<close> events in a list of effects, in order, and the
  requests to the store.
\<close>

fun found :: "action list \<Rightarrow> payload list" where
  "found [] = []"
| "found (Emit name arg # as) = (if name = ''peerFound'' then arg # found as else found as)"
| "found (a # as) = found as"

fun is_get :: "action \<Rightarrow> bool" where
  "is_get (StoreGet u g) = True"
| "is_get a = False"

fun is_set :: "action \<Rightarrow> bool" where
  "is_set (StoreSet u g s f) = True"
| "is_set a = False"

subsection \<open>Auxiliary notions for the proofs\<close>

text \<open>
  The states of a constructed session: the peer exists and the first listener of the
  session is the one that \<open>peerHandler\<close> attaches. The peer is alive until it is
  destroyed.
\<close>

definition attached :: "world \<Rightarrow> bool" where
  "attached w \<longleftrightarrow> peer w \<noteq> None \<and> take 1 (listeners w) = [PeerFound_signal]"

definition alive :: "world \<Rightarrow> bool" where
  "alive w \<longleftrightarrow> (case peer w of None \<Rightarrow> False | Some p \<Rightarrow> \<not> destroyed p)"

definition can_send :: "world \<Rightarrow> bool" where
  "can_send w \<longleftrightarrow> (case peer w of None \<Rightarrow> False | Some p \<Rightarrow> connected p \<and> \<not> destroyed p)"

text \<open>What a listener does when it is called in a state where the peer is alive.\<close>

fun listener_actions :: "payload \<Rightarrow> listener \<Rightarrow> action list" where
  "listener_actions arg PeerFound_signal = [PeerSignal arg]"
| "listener_actions arg PeerFound_generateKeys = [GenerateKeys]"
| "listener_actions arg PublicKey_empty = []"

definition emit_actions :: "string \<Rightarrow> payload \<Rightarrow> world \<Rightarrow> action list" where
  "emit_actions name arg w =
     Emit name arg
       # concat (map (listener_actions arg) (filter (\<lambda>l. listens_to l = name) (listeners w)))"

definition keygens :: "string \<Rightarrow> world \<Rightarrow> nat" where
  \<comment> \<open>how many listeners of the event call \<open>generateKeys\<close>\<close>
  "keygens name w =
     length (filter (\<lambda>l. l = PeerFound_generateKeys)
       (filter (\<lambda>l. listens_to l = name) (listeners w)))"

definition news :: "string list \<Rightarrow> world \<Rightarrow> string list" where
  \<comment> \<open>the elements of a response that pass the difference and the test of the loop body\<close>
  "news resp w =
     filter (\<lambda>s. s \<noteq> JSON_stringify (peerSignal w)) (setDifference (new_Set resp) (otherPeers w))"

section \<open>Properties of \<open>setDifference\<close>\<close>

lemma set_Set_add: "set (Set_add x s) = insert x (set s)"
  by (auto simp: Set_add_def)

lemma distinct_Set_add: "distinct s \<Longrightarrow> distinct (Set_add x s)"
  by (simp add: Set_add_def)

lemma fold_Set_add: "set (fold Set_add xs s) = set xs \<union> set s"
  by (induction xs arbitrary: s) (auto simp: set_Set_add)

lemma distinct_fold_Set_add: "distinct s \<Longrightarrow> distinct (fold Set_add xs s)"
  by (induction xs arbitrary: s) (simp_all add: distinct_Set_add)

lemma set_new_Set: "set (new_Set xs) = set xs"
  by (simp add: new_Set_def fold_Set_add)

lemma distinct_new_Set: "distinct (new_Set xs)"
  by (simp add: new_Set_def distinct_fold_Set_add)

lemma set_fold_Set_delete: "set (fold Set_delete ys d) = set d - set ys"
  by (induction ys arbitrary: d) (auto simp: Set_delete_def)

lemma distinct_fold_Set_delete: "distinct d \<Longrightarrow> distinct (fold Set_delete ys d)"
  by (induction ys arbitrary: d) (simp_all add: Set_delete_def distinct_removeAll)

lemma set_setDifference: "set (setDifference setA setB) = set setA - set setB"
  by (simp add: setDifference_def set_fold_Set_delete set_new_Set)

lemma distinct_setDifference: "distinct (setDifference setA setB)"
  by (simp add: setDifference_def distinct_fold_Set_delete distinct_new_Set)

text \<open>
  While the loop deletes from an object other than the one it iterates, it deletes the
  elements of the iterated object from position \<open>i\<close> on, one after the other.
\<close>

lemma for_of_delete_other:
  "difference \<noteq> setB \<Longrightarrow> difference < length h \<Longrightarrow> setB < length h \<Longrightarrow>
   for_of_delete setB difference i h
     = h[difference := fold Set_delete (drop i (h ! setB)) (h ! difference)]"
proof (induction setB difference i h rule: for_of_delete.induct)
  case (1 setB difference i h)
  show ?case
  proof (cases "i < length (h ! setB)")
    case True
    let ?h1 = "heap_delete difference (h ! setB ! i) h"
    have h1: "?h1 = h[difference := Set_delete (h ! setB ! i) (h ! difference)]"
      using 1(3) by (simp add: heap_delete_def)
    have len: "difference < length ?h1" "setB < length ?h1"
      using 1(3,4) by (simp_all add: h1)
    have same: "?h1 ! setB = h ! setB"
      using 1(2) by (simp add: h1)
    have "for_of_delete setB difference i h = for_of_delete setB difference (Suc i) ?h1"
      using True 1(4) by (subst for_of_delete.simps) simp
    also have "\<dots> = ?h1[difference := fold Set_delete (drop (Suc i) (?h1 ! setB)) (?h1 ! difference)]"
      using "1.IH" True 1(2,4) len by simp
    also have "\<dots> = h[difference := fold Set_delete (drop i (h ! setB)) (h ! difference)]"
      using True 1(2,3) by (simp add: h1 Cons_nth_drop_Suc [symmetric])
    finally show ?thesis .
  next
    case False
    then show ?thesis
      by (subst for_of_delete.simps) simp
  qed
qed

text \<open>
  Claim C10. \<open>setDifference\<close> leaves both of its arguments as they were: the set it
  returns is a freshly allocated object (its reference is not one of the heap before the
  call), the heap after the call is the heap before it with that one object added, and so
  the objects \<open>setA\<close> and \<open>setB\<close> hold the same elements afterwards, also when
  \<open>setA\<close> and \<open>setB\<close> are the same object. The new object holds
  \<open>setDifference\<close> of the two.
\<close>

theorem setDifference_heap_frame:
  assumes "setA < length h" and "setB < length h"
  shows "case setDifference_heap setA setB h of
           None \<Rightarrow> False
         | Some (h', difference) \<Rightarrow>
             difference = length h
           \<and> h' = h @ [setDifference (h ! setA) (h ! setB)]
           \<and> h' ! setA = h ! setA
           \<and> h' ! setB = h ! setB"
proof -
  let ?h1 = "h @ [new_Set (h ! setA)]"
  let ?d = "length h"
  have neq: "?d \<noteq> setB" using assms(2) by simp
  have run: "for_of_delete setB ?d 0 ?h1
               = ?h1[?d := fold Set_delete (drop 0 (?h1 ! setB)) (?h1 ! ?d)]"
    using assms(2) neq by (intro for_of_delete_other) simp_all
  have B: "?h1 ! setB = h ! setB"
    using assms(2) by (simp add: nth_append)
  have res: "for_of_delete setB ?d 0 ?h1 = h @ [setDifference (h ! setA) (h ! setB)]"
    by (simp add: run B setDifference_def)
  have "setDifference_heap setA setB h = Some (h @ [setDifference (h ! setA) (h ! setB)], ?d)"
    using assms by (simp add: setDifference_heap_def heap_new_Set_def res)
  then show ?thesis
    using assms by (simp add: nth_append)
qed

theorem setDifference_heap_frame_witness:
  "(0::nat) < length [[''A'', ''B''], [''A'']] \<and> (1::nat) < length [[''A'', ''B''], [''A'']]
   \<and> setDifference_heap 0 1 [[''A'', ''B''], [''A'']]
       = Some ([[''A'', ''B''], [''A''], [''B'']], 2)"
  using setDifference_heap_frame [of 0 "[[''A'', ''B''], [''A'']]" 1]
  by (auto simp: setDifference_def new_Set_def Set_add_def Set_delete_def split: option.splits)

text \<open>
  Claim C8. For all sets, an element is in \<open>setDifference(A, B)\<close> if and only if it is
  in \<open>A\<close> and not in \<open>B\<close>; the result is again a set (no element twice); and the
  operation is not symmetric: \<open>{a} - {}\<close> differs from \<open>{} - {a}\<close>.
\<close>

theorem setDifference_is_difference:
  "(\<forall>x. x \<in> set (setDifference setA setB) \<longleftrightarrow> x \<in> set setA \<and> x \<notin> set setB)
   \<and> distinct (setDifference setA setB)
   \<and> setDifference [a] [] \<noteq> setDifference [] [a]"
  by (simp add: set_setDifference distinct_setDifference)
    (simp add: setDifference_def new_Set_def Set_add_def Set_delete_def)

theorem setDifference_is_difference_witness:
  "setDifference [''A'', ''B'', ''A''] [''A'', ''C''] = [''B'']
   \<and> setDifference [''A'', ''C''] [''A'', ''B'', ''A''] = [''C'']"
  using setDifference_is_difference [of "[''A'', ''B'', ''A'']" "[''A'', ''C'']" "''A''"]
  by (simp add: setDifference_def new_Set_def Set_add_def Set_delete_def)

section \<open>Properties of the session\<close>

subsection \<open>Emitting an event\<close>

lemma andThen_ok [simp]: "andThen (ok w) f = f w"
  by (cases "f w") (simp add: andThen_def ok_def)

lemma alive_simps [simp]:
  "alive (w\<lparr>pendingKeys := k\<rparr>) = alive w"
  "alive (w\<lparr>pendingGet := n\<rparr>) = alive w"
  "alive (w\<lparr>otherPeers := ps\<rparr>) = alive w"
  by (simp_all add: alive_def)

lemma forEach_listeners:
  "alive w \<Longrightarrow>
   forEach ls (\<lambda>l. run_listener l arg) w
     = (w\<lparr>pendingKeys := pendingKeys w + length (filter (\<lambda>l. l = PeerFound_generateKeys) ls)\<rparr>,
        concat (map (listener_actions arg) ls), None)"
proof (induction ls arbitrary: w)
  case Nil
  then show ?case by (simp add: ok_def)
next
  case (Cons l ls)
  show ?case
  proof (cases l)
    case PeerFound_signal
    have "peer_signal arg w = (w, [PeerSignal arg], None)"
      using Cons.prems by (auto simp: peer_signal_def alive_def act_def split: option.splits)
    then show ?thesis
      using Cons.IH [of w] Cons.prems PeerFound_signal by (simp add: andThen_def)
  next
    case PeerFound_generateKeys
    then show ?thesis
      using Cons.IH [of "w\<lparr>pendingKeys := Suc (pendingKeys w)\<rparr>"] Cons.prems
      by (simp add: act_def andThen_def)
  next
    case PublicKey_empty
    then show ?thesis
      using Cons.IH [of w] Cons.prems by simp
  qed
qed

lemma emit_eq:
  "alive w \<Longrightarrow>
   emit name arg w
     = (w\<lparr>pendingKeys := pendingKeys w + keygens name w\<rparr>, emit_actions name arg w, None)"
  by (simp add: emit_def act_def andThen_def forEach_listeners keygens_def emit_actions_def)

text \<open>
  Once the peer is destroyed, the first \<open>peerFound\<close> listener throws: the event has
  been emitted, the listeners after it are not called, and the exception leaves \<open>emit\<close>.
\<close>

lemma emit_destroyed:
  assumes "attached w" and "\<not> alive w"
  shows "emit ''peerFound'' arg w = (w, [Emit ''peerFound'' arg], Some PeerError)"
proof -
  obtain rest where ls: "listeners w = PeerFound_signal # rest"
    using assms(1) by (cases "listeners w") (simp_all add: attached_def)
  have "peer_signal arg w = (w, [], Some PeerError)"
    using assms by (auto simp: peer_signal_def attached_def alive_def throw_def split: option.splits)
  then show ?thesis
    by (simp add: emit_def ls act_def andThen_def)
qed

lemma forEach_empty_listeners:
  "\<forall>l\<in>set ls. l = PublicKey_empty \<Longrightarrow> forEach ls (\<lambda>l. run_listener l arg) w = (w, [], None)"
  by (induction ls) (simp_all add: ok_def andThen_def)

lemma other_listeners:
  "name \<noteq> ''peerFound'' \<Longrightarrow> \<forall>l\<in>set (filter (\<lambda>l. listens_to l = name) ls). l = PublicKey_empty"
proof (induction ls)
  case Nil
  then show ?case by simp
next
  case (Cons l ls)
  then show ?case by (cases l) auto
qed

lemma emit_other_eq:
  "name \<noteq> ''peerFound'' \<Longrightarrow> emit name arg w = (w, [Emit name arg], None)"
  by (simp add: emit_def act_def andThen_def forEach_empty_listeners [OF other_listeners])

subsection \<open>A poll response\<close>

lemma peerFound_body_eq:
  "alive w \<Longrightarrow>
   peerFound_body signal w =
     (if signal \<noteq> JSON_stringify (peerSignal w)
      then (w\<lparr>pendingKeys := pendingKeys w + keygens ''peerFound'' w,
              otherPeers := Set_add signal (otherPeers w)\<rparr>,
            emit_actions ''peerFound'' (StrArg signal) w, None)
      else (w, [], None))"
  by (simp add: peerFound_body_def emit_eq andThen_def ok_def)

lemma forEach_peerFound_body:
  "alive w \<Longrightarrow>
   forEach xs peerFound_body w =
     (w\<lparr>pendingKeys := pendingKeys w
          + length (filter (\<lambda>s. s \<noteq> JSON_stringify (peerSignal w)) xs) * keygens ''peerFound'' w,
        otherPeers := fold Set_add (filter (\<lambda>s. s \<noteq> JSON_stringify (peerSignal w)) xs) (otherPeers w)\<rparr>,
      concat (map (\<lambda>s. emit_actions ''peerFound'' (StrArg s) w)
        (filter (\<lambda>s. s \<noteq> JSON_stringify (peerSignal w)) xs)),
      None)"
proof (induction xs arbitrary: w)
  case Nil
  then show ?case by (simp add: ok_def)
next
  case (Cons x xs)
  show ?case
  proof (cases "x \<noteq> JSON_stringify (peerSignal w)")
    case True
    let ?w1 = "w\<lparr>pendingKeys := pendingKeys w + keygens ''peerFound'' w,
                  otherPeers := Set_add x (otherPeers w)\<rparr>"
    have body: "peerFound_body x w = (?w1, emit_actions ''peerFound'' (StrArg x) w, None)"
      using Cons.prems True by (simp add: peerFound_body_eq)
    have k: "keygens ''peerFound'' ?w1 = keygens ''peerFound'' w"
      by (simp add: keygens_def)
    have e: "\<And>s. emit_actions ''peerFound'' (StrArg s) ?w1 = emit_actions ''peerFound'' (StrArg s) w"
      by (simp add: emit_actions_def)
    have ih: "forEach xs peerFound_body ?w1 =
       (?w1\<lparr>pendingKeys := pendingKeys ?w1
          + length (filter (\<lambda>s. s \<noteq> JSON_stringify (peerSignal ?w1)) xs) * keygens ''peerFound'' ?w1,
        otherPeers := fold Set_add (filter (\<lambda>s. s \<noteq> JSON_stringify (peerSignal ?w1)) xs) (otherPeers ?w1)\<rparr>,
      concat (map (\<lambda>s. emit_actions ''peerFound'' (StrArg s) ?w1)
        (filter (\<lambda>s. s \<noteq> JSON_stringify (peerSignal ?w1)) xs)),
      None)"
      using Cons.prems by (intro Cons.IH) simp
    show ?thesis
      using True by (simp add: body andThen_def ih k e)
  next
    case False
    then show ?thesis
      using Cons.IH [of w] Cons.prems by (simp add: peerFound_body_eq andThen_def)
  qed
qed

text \<open>
  With a destroyed peer the loop stops at the first signal it announces, before
  \<open>otherPeers.add\<close>.
\<close>

lemma forEach_peerFound_body_destroyed:
  assumes "attached w" and "\<not> alive w"
  shows "forEach xs peerFound_body w =
     (case filter (\<lambda>s. s \<noteq> JSON_stringify (peerSignal w)) xs of
        [] \<Rightarrow> (w, [], None)
      | s # _ \<Rightarrow> (w, [Emit ''peerFound'' (StrArg s)], Some PeerError))"
proof (induction xs)
  case Nil
  show ?case by (simp add: ok_def)
next
  case (Cons x xs)
  show ?case
  proof (cases "x \<noteq> JSON_stringify (peerSignal w)")
    case True
    then have "peerFound_body x w = (w, [Emit ''peerFound'' (StrArg x)], Some PeerError)"
      by (simp add: peerFound_body_def emit_destroyed [OF assms] andThen_def)
    then show ?thesis
      using True by (simp add: andThen_def)
  next
    case False
    then have "peerFound_body x w = (w, [], None)"
      by (simp add: peerFound_body_def ok_def)
    then show ?thesis
      using False Cons.IH by (simp add: andThen_def)
  qed
qed

lemma step_GetResolved:
  "alive w \<Longrightarrow> 0 < pendingGet w \<Longrightarrow>
   step P (GetResolved resp) w =
     (w\<lparr>pendingGet := pendingGet w - 1,
        pendingKeys := pendingKeys w + length (news resp w) * keygens ''peerFound'' w,
        otherPeers := fold Set_add (news resp w) (otherPeers w)\<rparr>,
      concat (map (\<lambda>s. emit_actions ''peerFound'' (StrArg s) w) (news resp w)), None)"
  by (simp add: listenSignalRoutine_then_def forEach_peerFound_body news_def keygens_def
      emit_actions_def)

lemma step_GetResolved_destroyed:
  assumes "attached w" and "\<not> alive w" and "0 < pendingGet w"
  shows "step P (GetResolved resp) w =
     (case news resp w of
        [] \<Rightarrow> (w\<lparr>pendingGet := pendingGet w - 1\<rparr>, [], None)
      | s # _ \<Rightarrow> (w\<lparr>pendingGet := pendingGet w - 1\<rparr>,
                  [Emit ''peerFound'' (StrArg s)], Some PeerError))"
proof -
  let ?w = "w\<lparr>pendingGet := pendingGet w - 1\<rparr>"
  have a: "attached ?w" "\<not> alive ?w"
    using assms(1,2) by (simp_all add: attached_def)
  have "step P (GetResolved resp) w = listenSignalRoutine_then resp ?w"
    using assms(3) by simp
  also have "\<dots> = forEach (setDifference (new_Set resp) (otherPeers w)) peerFound_body ?w"
    by (simp add: listenSignalRoutine_then_def)
  also have "\<dots> =
     (case filter (\<lambda>s. s \<noteq> JSON_stringify (peerSignal ?w))
             (setDifference (new_Set resp) (otherPeers w)) of
        [] \<Rightarrow> (?w, [], None)
      | s # _ \<Rightarrow> (?w, [Emit ''peerFound'' (StrArg s)], Some PeerError))"
    by (rule forEach_peerFound_body_destroyed [OF a])
  finally show ?thesis
    by (simp add: news_def)
qed

lemma step_GetResolved_idle:
  "\<not> 0 < pendingGet w \<Longrightarrow> step P (GetResolved resp) w = (w, [], None)"
  by (simp add: ok_def)

subsection \<open>What each callback does\<close>

lemma listenSignal_eq:
  "listenSignal w =
     (case signalInstance w of
        None \<Rightarrow> (w, [], Some TypeError)
      | Some sig \<Rightarrow>
          (w\<lparr>pendingGet := Suc (pendingGet w), timers := timers w @ [nextTimer w],
             nextTimer := Suc (nextTimer w), listenSignalTimer := nextTimer w\<rparr>,
           [getSignal sig, SetInterval (nextTimer w) 5000], None))"
  by (simp add: listenSignal_def listenSignalRoutine_def andThen_def throw_def act_def
      setInterval_def split: option.splits)

lemma listenSignal_tick_eq:
  "listenSignal_tick w =
     (case signalInstance w of
        None \<Rightarrow> (w\<lparr>listenSignalCount := Suc (listenSignalCount w)\<rparr>, [], Some TypeError)
      | Some sig \<Rightarrow>
          (w\<lparr>listenSignalCount := Suc (listenSignalCount w), pendingGet := Suc (pendingGet w)\<rparr>,
           [getSignal sig], None))"
  by (simp add: listenSignal_tick_def listenSignalRoutine_def throw_def act_def
      split: option.splits)

lemma updateSignal_then_eq:
  "updateSignal_then w =
     (case signalInstance w of
        None \<Rightarrow> (w, [], Some TypeError)
      | Some sig \<Rightarrow>
          (w\<lparr>pendingGet := Suc (pendingGet w), timers := timers w @ [nextTimer w],
             nextTimer := Suc (nextTimer w), listenSignalTimer := nextTimer w,
             listeners := listeners w @ [PeerFound_generateKeys, PublicKey_empty]\<rparr>,
           [getSignal sig, SetInterval (nextTimer w) 5000], None))"
  by (simp add: updateSignal_then_def listenSignal_eq securityHandler_def andThen_def ok_def
      split: option.splits)

lemma peerHandler_then_eq:
  "peerHandler_then w =
     (w\<lparr>signalInstance := Some (new_Signal (url w) (grtcID w) (peerSignal w)),
        pendingUpdate := Suc (pendingUpdate w)\<rparr>,
      [StoreSet (url w) (grtcID w) (JSON_stringify (peerSignal w)) False], None)"
  by (simp add: peerHandler_then_def act_def updateSignal_def new_Signal_def)

lemma peer_on_signal_eq:
  "peer_on_signal s w =
     (if offerResolved w
      then (w\<lparr>peerSignal := Some s\<rparr>, [Emit ''peerSignal'' (StrArg s)], None)
      else (w\<lparr>peerSignal := Some s, offerResolved := True,
              signalInstance := Some (new_Signal (url w) (grtcID w) (Some s)),
              pendingUpdate := Suc (pendingUpdate w)\<rparr>,
            [Emit ''peerSignal'' (StrArg s), StoreSet (url w) (grtcID w) s False], None))"
  by (simp add: peer_on_signal_def emit_other_eq andThen_def ok_def peerHandler_then_eq
      JSON_stringify_def)

text \<open>
  When a key generation settles, the keys are stored and \<open>send\<close> is called: the message
  leaves if the peer is connected, otherwise the call throws.
\<close>

lemma generateKeys_then_eq:
  "peer w \<noteq> None \<Longrightarrow>
   generateKeys_then ks w =
     (if can_send w
      then (w\<lparr>keys := Some ks\<rparr>, [PeerSend (JObj [(''publicKey'', JStr (publicKey ks))])], None)
      else (w\<lparr>keys := Some ks\<rparr>, [], Some PeerError))"
  by (auto simp: generateKeys_then_def peer_send_def can_send_def act_def throw_def)

lemma dataHandler_eq:
  "dataHandler JSON_parse data w =
     (case JSON_parse data of
        None \<Rightarrow> (w, [], Some SyntaxError)
      | Some parsedData \<Rightarrow>
          (case publicKey_in parsedData of
             Inl e \<Rightarrow> (w, [], Some e)
           | Inr True \<Rightarrow> (w, [Emit ''publicKey'' (JsonArg (get_publicKey parsedData))], None)
           | Inr False \<Rightarrow> (w, [Emit ''peerData'' (JsonArg parsedData)], None)))"
  by (simp add: dataHandler_def emit_other_eq throw_def split: option.splits sum.splits bool.splits)

lemma constructor_eq:
  "constructor g u j r =
     (if j
      then (\<lparr>peer = Some \<lparr>initiator = True, trickle = False, connected = False,
                          destroyed = False\<rparr>,
              peerSignal = None,
              signalInstance = None, joinee = True, reload = r, url = u, grtcID = g,
              otherPeers = [], listenSignalTimer = 0, listenSignalCount = 0, keys = None,
              listeners = [PeerFound_signal], timers = [], nextTimer = 1, pendingGet = 0,
              pendingUpdate = 0, pendingKeys = 0, offerResolved = False\<rparr>,
            [NewPeer True False], None)
      else (\<lparr>peer = Some \<lparr>initiator = False, trickle = False, connected = False,
                          destroyed = False\<rparr>,
              peerSignal = None,
              signalInstance = Some (new_Signal u g None), joinee = False, reload = r,
              url = u, grtcID = g, otherPeers = [], listenSignalTimer = 1,
              listenSignalCount = 0, keys = None, listeners = [PeerFound_signal],
              timers = [1], nextTimer = 2, pendingGet = 1, pendingUpdate = 0,
              pendingKeys = 0, offerResolved = False\<rparr>,
            [StoreGet u g, SetInterval 1 5000, NewPeer False False], None))"
  by (simp add: constructor_def init_def listenSignal_eq peerHandler_def andThen_def act_def
      ok_def getSignal_def new_Signal_def)

lemma logged_simps [simp]:
  "logged (w, as, None) = as"
  "logged (w, as, Some e) = as @ [Uncaught e]"
  by (simp_all add: logged_def)

lemmas callback_eqs =
  listenSignal_tick_eq updateSignal_then_eq generateKeys_then_eq peer_on_signal_eq
  emit_other_eq dataHandler_eq ok_def

subsection \<open>What every step keeps\<close>

lemma attached_iff:
  "attached w \<longleftrightarrow> (\<exists>p. peer w = Some p) \<and> (\<exists>rest. listeners w = PeerFound_signal # rest)"
  by (cases "listeners w") (auto simp: attached_def)

lemma attached_peer: "attached w \<Longrightarrow> peer w \<noteq> None"
  by (simp add: attached_def)

text \<open>The three ways a poll response is handled.\<close>

lemma GetResolved_cases:
  assumes "attached w"
  obtains (idle) "\<not> 0 < pendingGet w"
      and "step P (GetResolved resp) w = (w, [], None)"
    | (live) "0 < pendingGet w" and "alive w"
      and "step P (GetResolved resp) w =
        (w\<lparr>pendingGet := pendingGet w - 1,
           pendingKeys := pendingKeys w + length (news resp w) * keygens ''peerFound'' w,
           otherPeers := fold Set_add (news resp w) (otherPeers w)\<rparr>,
         concat (map (\<lambda>s. emit_actions ''peerFound'' (StrArg s) w) (news resp w)), None)"
    | (dead_none) "0 < pendingGet w" and "\<not> alive w" and "news resp w = []"
      and "step P (GetResolved resp) w = (w\<lparr>pendingGet := pendingGet w - 1\<rparr>, [], None)"
    | (dead_some) s rest where "0 < pendingGet w" and "\<not> alive w" and "news resp w = s # rest"
      and "step P (GetResolved resp) w
             = (w\<lparr>pendingGet := pendingGet w - 1\<rparr>,
                [Emit ''peerFound'' (StrArg s)], Some PeerError)"
proof (cases "0 < pendingGet w")
  case False
  then show ?thesis using idle step_GetResolved_idle by blast
next
  case pending: True
  show ?thesis
  proof (cases "alive w")
    case True
    then show ?thesis using live pending step_GetResolved by blast
  next
    case False
    show ?thesis
    proof (cases "news resp w")
      case Nil
      then show ?thesis
        using dead_none [OF pending False] step_GetResolved_destroyed [OF assms False pending, of P resp]
        by simp
    next
      case (Cons s rest)
      then show ?thesis
        using dead_some [OF pending False] step_GetResolved_destroyed [OF assms False pending, of P resp]
        by simp
    qed
  qed
qed

lemma step_attached:
  assumes "attached w"
  shows "attached (fst (step P ev w))"
proof (cases ev)
  case (GetResolved resp)
  show ?thesis
    unfolding GetResolved
    by (rule GetResolved_cases [OF assms, of P resp]) (use assms in \<open>simp_all add: attached_def\<close>)
qed (use assms in \<open>auto simp: attached_iff callback_eqs split: option.splits sum.splits bool.splits\<close>)

lemma fst_run_Cons: "fst (run P (ev # evs) w) = fst (run P evs (fst (step P ev w)))"
  by (simp add: case_prod_beta)

lemma snd_run_Cons:
  "snd (run P (ev # evs) w) = logged (step P ev w) @ snd (run P evs (fst (step P ev w)))"
  by (simp add: case_prod_beta)

lemma run_attached: "attached w \<Longrightarrow> attached (fst (run P evs w))"
proof (induction evs arbitrary: w)
  case Nil
  then show ?case by simp
next
  case (Cons ev evs)
  from Cons.prems have "attached (fst (step P ev w))" by (rule step_attached)
  then have "attached (fst (run P evs (fst (step P ev w))))" by (rule Cons.IH)
  then show ?case unfolding fst_run_Cons .
qed


subsection \<open>The \<open>peerFound\<close> events of a step\<close>

lemma found_append: "found (as @ bs) = found as @ found bs"
  by (induction as rule: found.induct) simp_all

lemma found_listener_actions:
  "found (concat (map (listener_actions arg) ls)) = []"
proof (induction ls)
  case Nil
  then show ?case by simp
next
  case (Cons l ls)
  then show ?case by (cases l) simp_all
qed

lemma found_emit_actions:
  "found (emit_actions name arg w) = (if name = ''peerFound'' then [arg] else [])"
  by (simp add: emit_actions_def found_listener_actions)

lemma found_poll:
  "found (concat (map (\<lambda>s. emit_actions ''peerFound'' (StrArg s) w) ys)) = map StrArg ys"
  by (induction ys) (simp_all add: found_append found_emit_actions)

text \<open>
  Only a poll response announces signals: all the new ones while the peer is alive, the
  first of them once it is destroyed.
\<close>

lemma step_found:
  assumes "attached w"
  shows "found (logged (step P ev w)) =
     (case ev of
        GetResolved resp \<Rightarrow>
          if 0 < pendingGet w
          then map StrArg (if alive w then news resp w else take 1 (news resp w))
          else []
      | _ \<Rightarrow> [])"
proof (cases ev)
  case (GetResolved resp)
  show ?thesis
    unfolding GetResolved
    by (rule GetResolved_cases [OF assms, of P resp]) (simp_all add: found_poll)
qed (use assms in \<open>auto simp: attached_iff callback_eqs getSignal_def
      split: option.splits sum.splits bool.splits\<close>)

text \<open>Only a poll response with a live peer changes \<open>otherPeers\<close>.\<close>

lemma step_otherPeers:
  assumes "attached w"
  shows "otherPeers (fst (step P ev w)) =
     (case ev of
        GetResolved resp \<Rightarrow>
          if 0 < pendingGet w \<and> alive w
          then fold Set_add (news resp w) (otherPeers w)
          else otherPeers w
      | _ \<Rightarrow> otherPeers w)"
proof (cases ev)
  case (GetResolved resp)
  show ?thesis
    unfolding GetResolved
    by (rule GetResolved_cases [OF assms, of P resp]) simp_all
qed (use assms in \<open>auto simp: attached_iff callback_eqs split: option.splits sum.splits bool.splits\<close>)

subsection \<open>Discovery with a live peer never repeats itself\<close>


lemma set_news:
  "set (news resp w) = set resp - set (otherPeers w) - {JSON_stringify (peerSignal w)}"
  by (auto simp: news_def set_setDifference set_new_Set)




subsection \<open>Whole sessions\<close>

lemma fst_session: "fst (session P g u j r evs) = fst (run P evs (fst (constructor g u j r)))"
  by (simp add: session_def case_prod_beta)

lemma snd_session:
  "snd (session P g u j r evs)
     = logged (constructor g u j r) @ snd (run P evs (fst (constructor g u j r)))"
  by (simp add: session_def case_prod_beta)

lemma constructor_attached: "attached (fst (constructor g u j r))"
  by (simp add: constructor_eq attached_def)


lemma session_attached: "attached (fst (session P g u j r evs))"
  unfolding fst_session by (rule run_attached) (rule constructor_attached)

lemma session_peer: "peer (fst (session P g u j r evs)) \<noteq> None"
  using session_attached by (rule attached_peer)


text \<open>The equations that evaluate a session on concrete events.\<close>

lemmas eval_simps =
  session_def constructor_eq peer_on_signal_eq updateSignal_then_eq listenSignal_tick_eq
  generateKeys_then_def emit_other_eq dataHandler_eq listenSignalRoutine_then_def
  peerFound_body_def emit_def peer_signal_def peer_send_def andThen_def act_def throw_def ok_def
  new_Signal_def getSignal_def setDifference_def new_Set_def
  Set_add_def Set_delete_def JSON_stringify_def alive_def can_send_def




text \<open>
  Claim C2, as the code has it. In a session whose \<open>otherPeers\<close> is still empty and
  whose \<open>peerSignal\<close> serializes to \<open>A\<close>, a poll that answers \<open>[A, B]\<close> (with \<open>B\<close>
  another signal than \<open>A\<close>) fires exactly one \<open>peerFound\<close> event, with \<open>B\<close>, and
  does not add \<open>A\<close> to \<open>otherPeers\<close>; if the peer is alive, \<open>otherPeers\<close> then holds
  \<open>B\<close> and nothing else.
\<close>

theorem first_poll_finds_the_other:
  assumes "w = fst (session P g u j r evs)"
    and "0 < pendingGet w"
    and "otherPeers w = []"
    and "JSON_stringify (peerSignal w) = A"
    and "A \<noteq> B"
  shows "found (logged (step P (GetResolved [A, B]) w)) = [StrArg B]
       \<and> A \<notin> set (otherPeers (fst (step P (GetResolved [A, B]) w)))
       \<and> (alive w \<longrightarrow> otherPeers (fst (step P (GetResolved [A, B]) w)) = [B])"
proof -
  have p: "attached w"
    unfolding assms(1) by (rule session_attached)
  have n: "news [A, B] w = [B]"
    using assms(3,4,5)
    by (simp add: news_def setDifference_def new_Set_def Set_add_def)
  show ?thesis
    unfolding step_found [OF p] step_otherPeers [OF p]
    using assms(2,5) by (simp add: n Set_add_def assms(3))
qed

theorem first_poll_finds_the_other_witness:
  "0 < pendingGet (fst (session (\<lambda>s. None) ''room'' ''kv'' True False
                          [PeerOnSignal ''A'', UpdateResolved]))
   \<and> otherPeers (fst (session (\<lambda>s. None) ''room'' ''kv'' True False
                          [PeerOnSignal ''A'', UpdateResolved])) = []
   \<and> JSON_stringify (peerSignal (fst (session (\<lambda>s. None) ''room'' ''kv'' True False
                          [PeerOnSignal ''A'', UpdateResolved]))) = ''A''
   \<and> ''A'' \<noteq> ''B''
   \<and> alive (fst (session (\<lambda>s. None) ''room'' ''kv'' True False
                          [PeerOnSignal ''A'', UpdateResolved]))
   \<and> found (logged (step (\<lambda>s. None) (GetResolved [''A'', ''B''])
        (fst (session (\<lambda>s. None) ''room'' ''kv'' True False
                          [PeerOnSignal ''A'', UpdateResolved])))) = [StrArg ''B'']
   \<and> otherPeers (fst (step (\<lambda>s. None) (GetResolved [''A'', ''B''])
        (fst (session (\<lambda>s. None) ''room'' ''kv'' True False
                          [PeerOnSignal ''A'', UpdateResolved])))) = [''B'']"
proof -
  let ?w = "fst (session (\<lambda>s. None) ''room'' ''kv'' True False
                          [PeerOnSignal ''A'', UpdateResolved])"
  have h: "0 < pendingGet ?w" "otherPeers ?w = []" "JSON_stringify (peerSignal ?w) = ''A''"
    "''A'' \<noteq> ''B''"
    by (simp_all add: eval_simps)
  have a: "alive ?w"
    by (simp add: eval_simps)
  from first_poll_finds_the_other [OF refl h] h a show ?thesis
    by blast
qed

text \<open>
  Claim C2 as it is written fails. If the peer has closed before the response arrives,
  \<open>peerFound\<close> fires with \<open>B\<close>, \<open>peer.signal\<close> throws, and \<open>B\<close> is not added:
  \<open>otherPeers\<close> stays empty.
\<close>

theorem first_poll_adds_counterexample:
  "0 < pendingGet (fst (session (\<lambda>s. None) ''room'' ''kv'' True False
        [PeerOnSignal ''A'', UpdateResolved, PeerOnOther ''close'']))
   \<and> otherPeers (fst (session (\<lambda>s. None) ''room'' ''kv'' True False
        [PeerOnSignal ''A'', UpdateResolved, PeerOnOther ''close''])) = []
   \<and> JSON_stringify (peerSignal (fst (session (\<lambda>s. None) ''room'' ''kv'' True False
        [PeerOnSignal ''A'', UpdateResolved, PeerOnOther ''close'']))) = ''A''
   \<and> logged (step (\<lambda>s. None) (GetResolved [''A'', ''B''])
        (fst (session (\<lambda>s. None) ''room'' ''kv'' True False
          [PeerOnSignal ''A'', UpdateResolved, PeerOnOther ''close''])))
     = [Emit ''peerFound'' (StrArg ''B''), Uncaught PeerError]
   \<and> otherPeers (fst (step (\<lambda>s. None) (GetResolved [''A'', ''B''])
        (fst (session (\<lambda>s. None) ''room'' ''kv'' True False
          [PeerOnSignal ''A'', UpdateResolved, PeerOnOther ''close''])))) = []"
  by (simp add: eval_simps)

subsection \<open>Publishing and polling\<close>

lemma is_get_emit_actions: "filter is_get (emit_actions name arg w) = []"
proof -
  have "filter is_get (concat (map (listener_actions arg) ls)) = []" for ls
  proof (induction ls)
    case Nil
    then show ?case by simp
  next
    case (Cons l ls)
    then show ?case by (cases l) simp_all
  qed
  then show ?thesis by (simp add: emit_actions_def)
qed

lemma is_set_emit_actions: "filter is_set (emit_actions name arg w) = []"
proof -
  have "filter is_set (concat (map (listener_actions arg) ls)) = []" for ls
  proof (induction ls)
    case Nil
    then show ?case by simp
  next
    case (Cons l ls)
    then show ?case by (cases l) simp_all
  qed
  then show ?thesis by (simp add: emit_actions_def)
qed

lemma is_get_poll:
  "filter is_get (concat (map (\<lambda>s. emit_actions ''peerFound'' (StrArg s) w) ys)) = []"
  by (induction ys) (simp_all add: is_get_emit_actions)

lemma is_set_poll:
  "filter is_set (concat (map (\<lambda>s. emit_actions ''peerFound'' (StrArg s) w) ys)) = []"
  by (induction ys) (simp_all add: is_set_emit_actions)

text \<open>
  While no timer is active and no \<open>updateSignal\<close> is pending, a step sends no
  \<open>get\<close> request; and unless it sends a \<open>set\<close> request, no timer is active and no
  \<open>updateSignal\<close> is pending after it either.
\<close>

lemma quiet_step:
  assumes "attached w" and "timers w = []" and "pendingUpdate w = 0"
  shows "filter is_get (logged (step P ev w)) = []"
    and "filter is_set (logged (step P ev w)) = []
         \<Longrightarrow> timers (fst (step P ev w)) = [] \<and> pendingUpdate (fst (step P ev w)) = 0"
proof -
  show "filter is_get (logged (step P ev w)) = []"
  proof (cases ev)
    case (GetResolved resp)
    show ?thesis
      unfolding GetResolved
      by (rule GetResolved_cases [OF assms(1), of P resp]) (simp_all add: is_get_poll)
  qed (use assms in \<open>auto simp: attached_iff callback_eqs
        split: option.splits sum.splits bool.splits\<close>)
  show "timers (fst (step P ev w)) = [] \<and> pendingUpdate (fst (step P ev w)) = 0"
    if "filter is_set (logged (step P ev w)) = []"
  proof (cases ev)
    case (GetResolved resp)
    show ?thesis
      unfolding GetResolved
      by (rule GetResolved_cases [OF assms(1), of P resp]) (use assms in simp_all)
  qed (use assms that in \<open>auto simp: attached_iff callback_eqs
        split: option.splits sum.splits bool.splits if_splits\<close>)
qed

lemma takeWhile_append_cases:
  "takeWhile Q (xs @ ys) = (if \<forall>x\<in>set xs. Q x then xs @ takeWhile Q ys else takeWhile Q xs)"
  by (induction xs) simp_all

lemma filter_takeWhile_Nil:
  "filter R xs = [] \<Longrightarrow> filter R (takeWhile Q xs) = []"
  by (induction xs) (auto split: if_splits)

lemma quiet_run:
  "attached w \<Longrightarrow> timers w = [] \<Longrightarrow> pendingUpdate w = 0 \<Longrightarrow>
   filter is_get (takeWhile (\<lambda>a. \<not> is_set a) (snd (run P evs w))) = []"
proof (induction evs arbitrary: w)
  case Nil
  then show ?case by simp
next
  case (Cons ev evs)
  let ?as = "logged (step P ev w)"
  let ?w1 = "fst (step P ev w)"
  note st = quiet_step [OF Cons.prems, of P ev]
  show ?case
  proof (cases "\<forall>a\<in>set ?as. \<not> is_set a")
    case True
    then have "filter is_set ?as = []"
      by (simp add: filter_empty_conv)
    then have q: "timers ?w1 = []" "pendingUpdate ?w1 = 0"
      using st(2) by simp_all
    have p: "attached ?w1" using Cons.prems(1) by (rule step_attached)
    have "filter is_get (takeWhile (\<lambda>a. \<not> is_set a) (snd (run P evs ?w1))) = []"
      using p q by (rule Cons.IH)
    then show ?thesis
      unfolding snd_run_Cons takeWhile_append_cases using True st(1) by simp
  next
    case False
    then show ?thesis
      unfolding snd_run_Cons takeWhile_append_cases
      using filter_takeWhile_Nil [OF st(1)] by auto
  qed
qed

text \<open>
  Claim C3. The role that publishes first is the one constructed with the \<open>joinee\<close>
  flag \<open>true\<close> (its peer is created with \<open>initiator: true\<close>); the role that listens
  first is the one constructed with \<open>joinee\<close> \<open>false\<close>. Whatever the events: in a
  session of the first role no \<open>get\<close> request is sent before the first \<open>set\<close> request;
  in a session of the second role the constructor itself sends the first \<open>get\<close>
  request and starts the timer, before anything else happens, so before any \<open>set\<close>.
\<close>

theorem publish_and_poll_order:
  "filter is_get (takeWhile (\<lambda>a. \<not> is_set a) (snd (session P g u True r evs))) = []
   \<and> take 2 (snd (session P g u False r evs)) = [StoreGet u g, SetInterval 1 5000]"
proof
  have c: "attached (fst (constructor g u True r))" "timers (fst (constructor g u True r)) = []"
    "pendingUpdate (fst (constructor g u True r)) = 0"
    by (simp_all add: constructor_eq attached_def)
  have "filter is_get (takeWhile (\<lambda>a. \<not> is_set a) (snd (run P evs (fst (constructor g u True r))))) = []"
    using c by (rule quiet_run)
  then show "filter is_get (takeWhile (\<lambda>a. \<not> is_set a) (snd (session P g u True r evs))) = []"
    unfolding snd_session takeWhile_append_cases by (simp add: constructor_eq)
  show "take 2 (snd (session P g u False r evs)) = [StoreGet u g, SetInterval 1 5000]"
    unfolding snd_session by (simp add: constructor_eq)
qed

theorem publish_and_poll_order_witness:
  "snd (session (\<lambda>s. None) ''room'' ''kv'' True False [PeerOnSignal ''A'', UpdateResolved, Tick 1])
     = [NewPeer True False, Emit ''peerSignal'' (StrArg ''A''),
        StoreSet ''kv'' ''room'' ''A'' False,
        StoreGet ''kv'' ''room'', SetInterval 1 5000, StoreGet ''kv'' ''room'']
   \<and> snd (session (\<lambda>s. None) ''room'' ''kv'' False False
            [GetResolved [''A''], PeerOnSignal ''B'', UpdateResolved])
     = [StoreGet ''kv'' ''room'', SetInterval 1 5000, NewPeer False False,
        Emit ''peerFound'' (StrArg ''A''), PeerSignal (StrArg ''A''),
        Emit ''peerSignal'' (StrArg ''B''), StoreSet ''kv'' ''room'' ''B'' False,
        StoreGet ''kv'' ''room'', SetInterval 2 5000]"
  using publish_and_poll_order [of "\<lambda>s. None" "''room''" "''kv''" False
      "[PeerOnSignal ''A'', UpdateResolved, Tick 1]"]
    publish_and_poll_order [of "\<lambda>s. None" "''room''" "''kv''" False
      "[GetResolved [''A''], PeerOnSignal ''B'', UpdateResolved]"]
  by (simp add: eval_simps)

subsection \<open>Incoming data\<close>

text \<open>
  Claim C9. A message that \<open>JSON.parse\<close> rejects makes \<open>dataHandler\<close> throw the
  \<open>SyntaxError\<close> out of the \<open>data\<close> callback: nothing is emitted, no field of the
  session changes, and the events that follow are handled exactly as if the message had
  not arrived, the only trace of it being the reported exception.
\<close>

theorem malformed_data_is_dropped:
  assumes "JSON_parse data = None"
  shows "step JSON_parse (PeerOnData data) (fst (session JSON_parse g u j r evs))
           = (fst (session JSON_parse g u j r evs), [], Some SyntaxError)
       \<and> run JSON_parse (PeerOnData data # later) (fst (session JSON_parse g u j r evs))
           = (fst (run JSON_parse later (fst (session JSON_parse g u j r evs))),
              Uncaught SyntaxError
                # snd (run JSON_parse later (fst (session JSON_parse g u j r evs))))"
proof -
  let ?w = "fst (session JSON_parse g u j r evs)"
  have p: "peer ?w \<noteq> None" by (rule session_peer)
  have s: "step JSON_parse (PeerOnData data) ?w = (?w, [], Some SyntaxError)"
    using p assms by (auto simp: dataHandler_eq)
  show ?thesis
    unfolding run.simps s by (simp add: case_prod_beta)
qed

theorem malformed_data_is_dropped_witness:
  "(\<lambda>s. if s = ''{}'' then Some (JObj []) else None) ''{bad'' = None
   \<and> snd (run (\<lambda>s. if s = ''{}'' then Some (JObj []) else None)
        [PeerOnData ''{bad'', PeerOnData ''{}'']
        (fst (session (\<lambda>s. if s = ''{}'' then Some (JObj []) else None)
           ''room'' ''kv'' True False [])))
     = [Uncaught SyntaxError, Emit ''peerData'' (JsonArg (JObj []))]"
proof -
  have h: "(\<lambda>s. if s = ''{}'' then Some (JObj []) else None) ''{bad'' = None"
    by simp
  from malformed_data_is_dropped [of "\<lambda>s. if s = ''{}'' then Some (JObj []) else None"
      "''{bad''" "''room''" "''kv''" True False "[]" "[PeerOnData ''{}'']", OF h]
  show ?thesis
    by (simp add: eval_simps)
qed

subsection \<open>The security handshake\<close>

lemma keygen_listener_actions:
  "filter (\<lambda>a. a = GenerateKeys) (concat (map (listener_actions arg) ls))
     = replicate (length (filter (\<lambda>l. l = PeerFound_generateKeys) ls)) GenerateKeys"
proof (induction ls)
  case Nil
  then show ?case by simp
next
  case (Cons l ls)
  then show ?case by (cases l) simp_all
qed

lemma keygen_emit_actions:
  "filter (\<lambda>a. a = GenerateKeys) (emit_actions name arg w)
     = replicate (keygens name w) GenerateKeys"
  by (simp add: emit_actions_def keygens_def keygen_listener_actions del: filter_filter)

lemma keygen_poll:
  "filter (\<lambda>a. a = GenerateKeys)
     (concat (map (\<lambda>s. emit_actions ''peerFound'' (StrArg s) w) ys))
     = replicate (length ys * keygens ''peerFound'' w) GenerateKeys"
  by (induction ys) (simp_all add: keygen_emit_actions replicate_add)

lemma step_keygen_only_poll:
  assumes "attached w" and "GenerateKeys \<in> set (logged (step P ev w))"
  shows "\<exists>resp. ev = GetResolved resp"
  using assms
  by (cases ev) (auto simp: attached_iff callback_eqs getSignal_def
      split: option.splits sum.splits bool.splits if_splits)

lemma step_PeerOnConnect:
  "step P PeerOnConnect w =
     (w\<lparr>peer := map_option (\<lambda>p. p\<lparr>connected := True\<rparr>) (peer w)\<rparr>,
      if peer w = None then [] else [Emit ''peerConnected'' NoArg], None)"
  by (cases "peer w") (simp_all add: emit_other_eq ok_def)

text \<open>
  Claim C4, as the code has it. The \<open>connect\<close> event of the peer only emits
  \<open>peerConnected\<close>: it generates no keys, sends nothing and changes no field of the
  session (the peer is connected from then on). Keys are generated in the steps that
  announce signals and in no other: while the peer is alive, a poll response calls
  \<open>generateKeys\<close> once for every signal it announces with \<open>peerFound\<close> and every
  \<open>peerFound\<close> listener that \<open>securityHandler\<close> has attached. When a key generation
  settles, the keys are stored and \<open>peer.send\<close> is called with the public key: the
  message leaves if the peer is connected at that moment, otherwise the call throws and
  nothing is sent.
\<close>

theorem keys_follow_peerFound:
  "step P PeerOnConnect (fst (session P g u j r evs))
     = ((fst (session P g u j r evs))
          \<lparr>peer := map_option (\<lambda>p. p\<lparr>connected := True\<rparr>) (peer (fst (session P g u j r evs)))\<rparr>,
        [Emit ''peerConnected'' NoArg], None)
   \<and> (GenerateKeys \<in> set (logged (step P ev (fst (session P g u j r evs))))
        \<longrightarrow> (\<exists>resp. ev = GetResolved resp))
   \<and> (0 < pendingGet (fst (session P g u j r evs)) \<and> alive (fst (session P g u j r evs)) \<longrightarrow>
        filter (\<lambda>a. a = GenerateKeys)
          (logged (step P (GetResolved resp) (fst (session P g u j r evs))))
        = replicate
            (length (found (logged (step P (GetResolved resp) (fst (session P g u j r evs)))))
              * keygens ''peerFound'' (fst (session P g u j r evs)))
            GenerateKeys)
   \<and> (0 < pendingKeys (fst (session P g u j r evs)) \<longrightarrow>
        step P (KeysResolved ks) (fst (session P g u j r evs))
        = ((fst (session P g u j r evs))
             \<lparr>pendingKeys := pendingKeys (fst (session P g u j r evs)) - 1, keys := Some ks\<rparr>,
           if can_send (fst (session P g u j r evs))
           then [PeerSend (JObj [(''publicKey'', JStr (publicKey ks))])] else [],
           if can_send (fst (session P g u j r evs)) then None else Some PeerError))"
proof -
  let ?w = "fst (session P g u j r evs)"
  have a: "attached ?w" by (rule session_attached)
  have p: "peer ?w \<noteq> None" by (rule session_peer)
  have 1: "step P PeerOnConnect ?w
             = (?w\<lparr>peer := map_option (\<lambda>p. p\<lparr>connected := True\<rparr>) (peer ?w)\<rparr>,
                [Emit ''peerConnected'' NoArg], None)"
    unfolding step_PeerOnConnect using p by simp
  have 2: "GenerateKeys \<in> set (logged (step P ev ?w)) \<longrightarrow> (\<exists>resp. ev = GetResolved resp)"
    using step_keygen_only_poll [OF a] by blast
  have 3: "filter (\<lambda>a. a = GenerateKeys) (logged (step P (GetResolved resp) ?w))
         = replicate (length (found (logged (step P (GetResolved resp) ?w)))
              * keygens ''peerFound'' ?w) GenerateKeys"
    if "0 < pendingGet ?w" and "alive ?w"
    unfolding step_GetResolved [OF that(2,1)] by (simp add: keygen_poll found_poll)
  have 4: "step P (KeysResolved ks) ?w
         = (?w\<lparr>pendingKeys := pendingKeys ?w - 1, keys := Some ks\<rparr>,
            if can_send ?w then [PeerSend (JObj [(''publicKey'', JStr (publicKey ks))])] else [],
            if can_send ?w then None else Some PeerError)"
    if "0 < pendingKeys ?w"
    using p that by (simp add: generateKeys_then_eq can_send_def)
  from 1 2 3 4 show ?thesis by blast
qed

theorem keys_follow_peerFound_witness:
  "0 < pendingGet (fst (session (\<lambda>s. None) ''room'' ''kv'' True False
        [PeerOnSignal ''A'', UpdateResolved]))
   \<and> alive (fst (session (\<lambda>s. None) ''room'' ''kv'' True False
        [PeerOnSignal ''A'', UpdateResolved]))
   \<and> logged (step (\<lambda>s. None) (GetResolved [''B''])
       (fst (session (\<lambda>s. None) ''room'' ''kv'' True False
        [PeerOnSignal ''A'', UpdateResolved])))
     = [Emit ''peerFound'' (StrArg ''B''), PeerSignal (StrArg ''B''), GenerateKeys]
   \<and> 0 < pendingKeys (fst (session (\<lambda>s. None) ''room'' ''kv'' True False
        [PeerOnSignal ''A'', UpdateResolved, GetResolved [''B''], PeerOnConnect]))
   \<and> can_send (fst (session (\<lambda>s. None) ''room'' ''kv'' True False
        [PeerOnSignal ''A'', UpdateResolved, GetResolved [''B''], PeerOnConnect]))
   \<and> logged (step (\<lambda>s. None) (KeysResolved \<lparr>publicKey = ''pk'', privateKey = ''sk''\<rparr>)
       (fst (session (\<lambda>s. None) ''room'' ''kv'' True False
        [PeerOnSignal ''A'', UpdateResolved, GetResolved [''B''], PeerOnConnect])))
     = [PeerSend (JObj [(''publicKey'', JStr ''pk'')])]"
  using keys_follow_peerFound [of "\<lambda>s. None" "''room''" "''kv''" True False
      "[PeerOnSignal ''A'', UpdateResolved]" "GetResolved [''B'']" "[''B'']"
      "\<lparr>publicKey = ''pk'', privateKey = ''sk''\<rparr>"]
    keys_follow_peerFound [of "\<lambda>s. None" "''room''" "''kv''" True False
      "[PeerOnSignal ''A'', UpdateResolved, GetResolved [''B''], PeerOnConnect]"
      "GetResolved [''B'']" "[''B'']" "\<lparr>publicKey = ''pk'', privateKey = ''sk''\<rparr>"]
  by (simp add: eval_simps)

text \<open>
  Claim C4 as it is written fails. In a session that publishes first, the poll response
  that announces \<open>B\<close> calls \<open>generateKeys\<close>; when the keys arrive before the peer is
  connected, \<open>peer.send\<close> throws and no public key is sent; the \<open>connect\<close> event that
  follows only emits \<open>peerConnected\<close>. In a session that listens first, the one signal
  of the room that is not its own is announced before \<open>securityHandler\<close> runs, and the
  \<open>connect\<close> event is followed by no key generation at all.
\<close>

theorem keys_on_connect_counterexample:
  "snd (session (\<lambda>s. None) ''room'' ''kv'' True False
          [PeerOnSignal ''A'', UpdateResolved, GetResolved [''B''],
           KeysResolved \<lparr>publicKey = ''pk'', privateKey = ''sk''\<rparr>, PeerOnConnect])
     = [NewPeer True False, Emit ''peerSignal'' (StrArg ''A''),
        StoreSet ''kv'' ''room'' ''A'' False, StoreGet ''kv'' ''room'', SetInterval 1 5000,
        Emit ''peerFound'' (StrArg ''B''), PeerSignal (StrArg ''B''), GenerateKeys,
        Uncaught PeerError,
        Emit ''peerConnected'' NoArg]
   \<and> snd (session (\<lambda>s. None) ''room'' ''kv'' False False
          [GetResolved [''A''], PeerOnSignal ''B'', UpdateResolved, PeerOnConnect,
           GetResolved [''A'', ''B''], Tick 1, GetResolved [''A'', ''B'']])
     = [StoreGet ''kv'' ''room'', SetInterval 1 5000, NewPeer False False,
        Emit ''peerFound'' (StrArg ''A''), PeerSignal (StrArg ''A''),
        Emit ''peerSignal'' (StrArg ''B''), StoreSet ''kv'' ''room'' ''B'' False,
        StoreGet ''kv'' ''room'', SetInterval 2 5000,
        Emit ''peerConnected'' NoArg, StoreGet ''kv'' ''room'']"
  by (simp add: eval_simps)

subsection \<open>Timers\<close>

lemma step_timers:
  assumes "attached w"
  shows "take (length (timers w)) (timers (fst (step P ev w))) = timers w"
proof (cases ev)
  case (GetResolved resp)
  show ?thesis
    unfolding GetResolved
    by (rule GetResolved_cases [OF assms(1), of P resp]) simp_all
qed (use assms in \<open>auto simp: attached_iff callback_eqs
      split: option.splits sum.splits bool.splits\<close>)

lemma step_signalInstance:
  assumes "attached w"
    and "timers w \<noteq> [] \<longrightarrow> signalInstance w \<noteq> None"
  shows "timers (fst (step P ev w)) \<noteq> [] \<longrightarrow> signalInstance (fst (step P ev w)) \<noteq> None"
proof (cases ev)
  case (GetResolved resp)
  show ?thesis
    unfolding GetResolved
    by (rule GetResolved_cases [OF assms(1), of P resp]) (use assms in simp_all)
qed (use assms in \<open>auto simp: attached_iff callback_eqs
      split: option.splits sum.splits bool.splits\<close>)

lemma run_timers:
  "attached w \<Longrightarrow> take (length (timers w)) (timers (fst (run P evs w))) = timers w"
proof (induction evs arbitrary: w)
  case Nil
  then show ?case by simp
next
  case (Cons ev evs)
  let ?w1 = "fst (step P ev w)"
  have p: "attached ?w1" using Cons.prems by (rule step_attached)
  have a: "take (length (timers ?w1)) (timers (fst (run P evs ?w1))) = timers ?w1"
    using p by (rule Cons.IH)
  have b: "take (length (timers w)) (timers ?w1) = timers w"
    using Cons.prems by (rule step_timers)
  have "take (length (timers w)) (timers (fst (run P evs ?w1)))
          = take (length (timers w)) (take (length (timers ?w1)) (timers (fst (run P evs ?w1))))"
    using b by (metis length_take min.commute take_take)
  also have "\<dots> = timers w"
    unfolding a by (rule b)
  finally show ?case
    unfolding fst_run_Cons .
qed

lemma run_signalInstance:
  "attached w \<Longrightarrow> (timers w \<noteq> [] \<longrightarrow> signalInstance w \<noteq> None) \<Longrightarrow>
   timers (fst (run P evs w)) \<noteq> [] \<longrightarrow> signalInstance (fst (run P evs w)) \<noteq> None"
proof (induction evs arbitrary: w)
  case Nil
  then show ?case by simp
next
  case (Cons ev evs)
  let ?w1 = "fst (step P ev w)"
  have p: "attached ?w1" using Cons.prems(1) by (rule step_attached)
  have s: "timers ?w1 \<noteq> [] \<longrightarrow> signalInstance ?w1 \<noteq> None"
    using Cons.prems by (rule step_signalInstance)
  show ?case
    unfolding fst_run_Cons using p s by (rule Cons.IH)
qed

lemma session_signalInstance:
  "timers (fst (session P g u j r evs)) \<noteq> []
     \<longrightarrow> signalInstance (fst (session P g u j r evs)) \<noteq> None"
  unfolding fst_session
  by (rule run_signalInstance) (simp_all add: constructor_eq attached_def)

lemma tick_sends_get:
  "signalInstance w = Some sig \<Longrightarrow> h \<in> set (timers w) \<Longrightarrow>
   logged (step P (Tick h) w) = [getSignal sig]"
  by (simp add: listenSignal_tick_eq)

lemma fst_run_append:
  "fst (run P (evs @ later) w) = fst (run P later (fst (run P evs w)))"
  by (induction evs arbitrary: w) (simp_all add: case_prod_beta)

lemma fst_session_append:
  "fst (session P g u j r (evs @ later)) = fst (run P later (fst (session P g u j r evs)))"
  by (simp add: fst_session fst_run_append)

text \<open>
  A timer that is active in a session stays active whatever happens later, and each of
  its ticks sends a \<open>get\<close> request.
\<close>

lemma timer_never_stops:
  assumes "h \<in> set (timers (fst (session P g u j r evs)))"
  shows "h \<in> set (timers (fst (run P later (fst (session P g u j r evs)))))"
    and "filter is_get (logged (step P (Tick h) (fst (run P later (fst (session P g u j r evs))))))
           \<noteq> []"
proof -
  let ?w = "fst (session P g u j r evs)"
  let ?w' = "fst (run P later ?w)"
  have "take (length (timers ?w)) (timers ?w') = timers ?w"
    using session_attached by (rule run_timers)
  then have "set (timers ?w) \<subseteq> set (timers ?w')"
    by (metis set_take_subset)
  then show h: "h \<in> set (timers ?w')"
    using assms by blast
  then have "timers ?w' \<noteq> []" by auto
  then have "signalInstance ?w' \<noteq> None"
    using session_signalInstance [of P g u j r "evs @ later"]
    by (simp add: fst_session_append)
  then obtain sig where "signalInstance ?w' = Some sig" by blast
  then have "logged (step P (Tick h) ?w') = [getSignal sig]"
    using h by (rule tick_sends_get)
  then show "filter is_get (logged (step P (Tick h) ?w')) \<noteq> []"
    by (simp add: getSignal_def)
qed

text \<open>
  Claim C6, as the code has it. The class has no \<open>stop\<close> or \<open>close\<close> method and
  never calls \<open>clearInterval\<close>; \<open>listenSignalTimer\<close> is written and never read. So
  nothing cancels a discovery timer: a timer that is active at some moment of a session
  is still active after any further events, and each of its ticks then still sends a
  \<open>get\<close> request to the store.
\<close>

theorem discovery_timer_never_cancelled:
  "h \<in> set (timers (fst (session P g u j r evs))) \<longrightarrow>
     h \<in> set (timers (fst (run P later (fst (session P g u j r evs)))))
   \<and> filter is_get
         (logged (step P (Tick h) (fst (run P later (fst (session P g u j r evs)))))) \<noteq> []"
  using timer_never_stops by blast

theorem discovery_timer_never_cancelled_witness:
  "1 \<in> set (timers (fst (session (\<lambda>s. None) ''room'' ''kv'' False False [])))
   \<and> logged (step (\<lambda>s. None) (Tick 1)
        (fst (run (\<lambda>s. None) [PeerOnOther ''close'', PeerOnOther ''error'']
          (fst (session (\<lambda>s. None) ''room'' ''kv'' False False [])))))
     = [StoreGet ''kv'' ''room'']"
  using discovery_timer_never_cancelled [of 1 "\<lambda>s. None" "''room''" "''kv''" False False "[]"
      "[PeerOnOther ''close'', PeerOnOther ''error'']"]
  by (simp add: eval_simps)

text \<open>
  Claim C6 as it is written fails: the only closing the session can be told of is the
  \<open>close\<close> event of its peer, to which nothing listens, so polling goes on after it;
  and in the session that has just been constructed to listen there is no event at all
  after which the tick of its timer would send no \<open>get\<close> request.
\<close>

theorem stop_cancels_timer_counterexample:
  "snd (session (\<lambda>s. None) ''room'' ''kv'' False False [PeerOnOther ''close'', Tick 1, Tick 1])
     = [StoreGet ''kv'' ''room'', SetInterval 1 5000, NewPeer False False,
        StoreGet ''kv'' ''room'', StoreGet ''kv'' ''room'']
   \<and> \<not> (\<exists>ev. filter is_get
               (logged (step (\<lambda>s. None) (Tick 1)
                 (fst (session (\<lambda>s. None) ''room'' ''kv'' False False [ev])))) = [])"
proof
  show "snd (session (\<lambda>s. None) ''room'' ''kv'' False False [PeerOnOther ''close'', Tick 1, Tick 1])
     = [StoreGet ''kv'' ''room'', SetInterval 1 5000, NewPeer False False,
        StoreGet ''kv'' ''room'', StoreGet ''kv'' ''room'']"
    by (simp add: eval_simps)
  have "1 \<in> set (timers (fst (session (\<lambda>s. None) ''room'' ''kv'' False False [])))"
    by (simp add: eval_simps)
  then have "filter is_get (logged (step (\<lambda>s. None) (Tick 1)
      (fst (run (\<lambda>s. None) [ev] (fst (session (\<lambda>s. None) ''room'' ''kv'' False False []))))))
      \<noteq> []" for ev
    by (rule timer_never_stops(2))
  moreover have "fst (session (\<lambda>s. None) ''room'' ''kv'' False False [ev])
      = fst (run (\<lambda>s. None) [ev] (fst (session (\<lambda>s. None) ''room'' ''kv'' False False [])))"
    for ev
    by (simp only: fst_session_append [symmetric] append_Nil)
  ultimately show "\<not> (\<exists>ev. filter is_get
               (logged (step (\<lambda>s. None) (Tick 1)
                 (fst (session (\<lambda>s. None) ''room'' ''kv'' False False [ev])))) = [])"
    by (simp only: not_ex not_False_eq_True simp_thms)
qed

lemma listenSignal_twice:
  assumes "signalInstance w = Some sig"
  shows "timers (fst (listenSignal (fst (listenSignal w))))
           = timers w @ [nextTimer w, Suc (nextTimer w)]"
    and "listenSignalTimer (fst (listenSignal (fst (listenSignal w)))) = Suc (nextTimer w)"
    and "snd (listenSignal (fst (listenSignal w)))
           = ([getSignal sig, SetInterval (Suc (nextTimer w)) 5000], None)"
  using assms by (simp_all add: listenSignal_eq)

text \<open>
  Claim C5 fails on the code. \<open>listenSignal\<close> has no guard: every call sends a poll
  and creates one more interval timer. The session constructed to listen calls it in
  \<open>init\<close> and again when the store acknowledges its own offer, so from then on two
  timers (handles 1 and 2) are active, \<open>listenSignalTimer\<close> remembers only the second,
  and when both are due, two \<open>get\<close> requests are sent.
\<close>

theorem listenSignal_started_twice:
  "timers (fst (session (\<lambda>s. None) ''room'' ''kv'' False False
              [GetResolved [''A''], PeerOnSignal ''B'', UpdateResolved])) = [1, 2]
   \<and> listenSignalTimer (fst (session (\<lambda>s. None) ''room'' ''kv'' False False
              [GetResolved [''A''], PeerOnSignal ''B'', UpdateResolved])) = 2
   \<and> snd (run (\<lambda>s. None) [Tick 1, Tick 2]
        (fst (session (\<lambda>s. None) ''room'' ''kv'' False False
              [GetResolved [''A''], PeerOnSignal ''B'', UpdateResolved])))
     = [StoreGet ''kv'' ''room'', StoreGet ''kv'' ''room'']"
  by (simp add: eval_simps)

subsection \<open>The elements of \<open>otherPeers\<close>\<close>

lemma step_peerSignal:
  assumes "attached w" and "\<forall>s. ev \<noteq> PeerOnSignal s"
  shows "peerSignal (fst (step P ev w)) = peerSignal w"
proof (cases ev)
  case (GetResolved resp)
  show ?thesis
    unfolding GetResolved
    by (rule GetResolved_cases [OF assms(1), of P resp]) simp_all
qed (use assms in \<open>auto simp: attached_iff callback_eqs
      split: option.splits sum.splits bool.splits\<close>)

lemma step_otherPeers_mono:
  assumes "attached w"
  shows "set (otherPeers w) \<subseteq> set (otherPeers (fst (step P ev w)))"
  unfolding step_otherPeers [OF assms]
  by (cases ev) (auto simp: fold_Set_add)

lemma run_otherPeers_mono:
  "attached w \<Longrightarrow> set (otherPeers w) \<subseteq> set (otherPeers (fst (run P evs w)))"
proof (induction evs arbitrary: w)
  case Nil
  then show ?case by simp
next
  case (Cons ev evs)
  let ?w1 = "fst (step P ev w)"
  have "set (otherPeers w) \<subseteq> set (otherPeers ?w1)"
    using Cons.prems by (rule step_otherPeers_mono)
  moreover have "set (otherPeers ?w1) \<subseteq> set (otherPeers (fst (run P evs ?w1)))"
    using Cons.prems by (intro Cons.IH step_attached)
  ultimately show ?case
    unfolding fst_run_Cons by (rule subset_trans)
qed

lemma step_adds_no_own:
  assumes "attached w"
  shows "JSON_stringify (peerSignal w)
           \<notin> set (otherPeers (fst (step P ev w))) - set (otherPeers w)"
  unfolding step_otherPeers [OF assms]
  by (cases ev) (auto simp: fold_Set_add set_news)

text \<open>
  Claim C7, as the code has it. No event removes an element of \<open>otherPeers\<close>: what
  is in it at some moment of a session is in it after any further events. No step adds
  the serialization of the \<open>peerSignal\<close> the session holds when the step starts. And a
  step that is not a \<open>signal\<close> event of the peer keeps \<open>otherPeers\<close> free of the
  serialization of the held \<open>peerSignal\<close> if it was free of it before.
\<close>

theorem otherPeers_grows_without_held_signal:
  "set (otherPeers (fst (session P g u j r evs)))
     \<subseteq> set (otherPeers (fst (run P later (fst (session P g u j r evs)))))
   \<and> JSON_stringify (peerSignal (fst (session P g u j r evs)))
       \<notin> set (otherPeers (fst (step P ev (fst (session P g u j r evs)))))
           - set (otherPeers (fst (session P g u j r evs)))
   \<and> ((\<forall>s. ev \<noteq> PeerOnSignal s)
        \<and> JSON_stringify (peerSignal (fst (session P g u j r evs)))
            \<notin> set (otherPeers (fst (session P g u j r evs)))
      \<longrightarrow> JSON_stringify (peerSignal (fst (step P ev (fst (session P g u j r evs)))))
            \<notin> set (otherPeers (fst (step P ev (fst (session P g u j r evs))))))"
proof -
  let ?w = "fst (session P g u j r evs)"
  have p: "attached ?w" by (rule session_attached)
  have 1: "set (otherPeers ?w) \<subseteq> set (otherPeers (fst (run P later ?w)))"
    using p by (rule run_otherPeers_mono)
  have 2: "JSON_stringify (peerSignal ?w)
             \<notin> set (otherPeers (fst (step P ev ?w))) - set (otherPeers ?w)"
    using p by (rule step_adds_no_own)
  have 3: "JSON_stringify (peerSignal (fst (step P ev ?w)))
             \<notin> set (otherPeers (fst (step P ev ?w)))"
    if "\<forall>s. ev \<noteq> PeerOnSignal s"
      and "JSON_stringify (peerSignal ?w) \<notin> set (otherPeers ?w)"
    using 2 that(2) by (simp add: step_peerSignal [OF p that(1)])
  from 1 2 3 show ?thesis by blast
qed

theorem otherPeers_grows_without_held_signal_witness:
  "JSON_stringify (peerSignal (fst (session (\<lambda>s. None) ''room'' ''kv'' True False
       [PeerOnSignal ''A'', UpdateResolved]))) = ''A''
   \<and> otherPeers (fst (session (\<lambda>s. None) ''room'' ''kv'' True False
       [PeerOnSignal ''A'', UpdateResolved])) = []
   \<and> otherPeers (fst (step (\<lambda>s. None) (GetResolved [''B'', ''A''])
       (fst (session (\<lambda>s. None) ''room'' ''kv'' True False
         [PeerOnSignal ''A'', UpdateResolved])))) = [''B'']
   \<and> otherPeers (fst (run (\<lambda>s. None) [GetResolved [''B'', ''A''], Tick 1, GetResolved [''C'']]
       (fst (session (\<lambda>s. None) ''room'' ''kv'' True False
         [PeerOnSignal ''A'', UpdateResolved])))) = [''B'', ''C'']"
  using otherPeers_grows_without_held_signal [of "\<lambda>s. None" "''room''" "''kv''" True False
      "[PeerOnSignal ''A'', UpdateResolved]" "[GetResolved [''B'', ''A''], Tick 1, GetResolved [''C'']]"
      "GetResolved [''B'', ''A'']"]
  by (simp add: eval_simps)

text \<open>
  Claim C7 as it is written fails. A session publishes \<open>A\<close>; its peer then emits
  \<open>signal\<close> again with \<open>A2\<close>, which replaces \<open>peerSignal\<close> and is not published;
  the next poll still finds \<open>A\<close> in the room, compares it with \<open>A2\<close>, announces it
  and adds it to \<open>otherPeers\<close>, which now holds the blob this session has published.
  And a listening session that has seen \<open>A\<close> holds its own signal in \<open>otherPeers\<close>
  as soon as its peer emits that same \<open>A\<close>.
\<close>

theorem otherPeers_without_own_counterexample:
  "snd (session (\<lambda>s. None) ''room'' ''kv'' True False
          [PeerOnSignal ''A'', UpdateResolved, GetResolved [''A'', ''B''],
           PeerOnSignal ''A2'', Tick 1, GetResolved [''A'', ''B'']])
     = [NewPeer True False, Emit ''peerSignal'' (StrArg ''A''),
        StoreSet ''kv'' ''room'' ''A'' False, StoreGet ''kv'' ''room'', SetInterval 1 5000,
        Emit ''peerFound'' (StrArg ''B''), PeerSignal (StrArg ''B''), GenerateKeys,
        Emit ''peerSignal'' (StrArg ''A2''), StoreGet ''kv'' ''room'',
        Emit ''peerFound'' (StrArg ''A''), PeerSignal (StrArg ''A''), GenerateKeys]
   \<and> otherPeers (fst (session (\<lambda>s. None) ''room'' ''kv'' True False
          [PeerOnSignal ''A'', UpdateResolved, GetResolved [''A'', ''B''],
           PeerOnSignal ''A2'', Tick 1, GetResolved [''A'', ''B'']])) = [''B'', ''A'']
   \<and> JSON_stringify (peerSignal (fst (session (\<lambda>s. None) ''room'' ''kv'' False False
          [GetResolved [''A''], PeerOnSignal ''A'']))) = ''A''
   \<and> otherPeers (fst (session (\<lambda>s. None) ''room'' ''kv'' False False
          [GetResolved [''A''], PeerOnSignal ''A''])) = [''A'']"
  by (simp add: eval_simps)

end
